theory Spec2Isabelle
  imports Main
begin

section \<open>Python primitives used by the status bar widgets\<close>

text \<open>
  The widgets of \<^verbatim>\<open>qutebrowser/widgets/statusbar.py\<close> work on Python strings and
  lists. A string is modelled as a \<^typ>\<open>string\<close> (a list of characters with code
  points below 256), a list of strings as a \<^typ>\<open>string list\<close>, and Python's
  unbounded integers as \<^typ>\<open>int\<close>.
\<close>

datatype error = IndexError | TypeError

text \<open>
  \<^verbatim>\<open>xs[i]\<close> on a list or a string: a negative index counts from the end, and an
  index outside \<^verbatim>\<open>-len(xs) .. len(xs)-1\<close> raises \<^verbatim>\<open>IndexError\<close>.
\<close>

definition py_index :: "'a list \<Rightarrow> int \<Rightarrow> error + 'a" where
  "py_index xs i =
     (if 0 \<le> i \<and> i < int (length xs) then Inr (xs ! nat i)
      else if i < 0 \<and> - int (length xs) \<le> i then Inr (xs ! nat (int (length xs) + i))
      else Inl IndexError)"

text \<open>\<^verbatim>\<open>s.startswith(p)\<close>.\<close>

definition startswith :: "string \<Rightarrow> string \<Rightarrow> bool" where
  "startswith s p = (take (length p) s = p)"

text \<open>
  \<^verbatim>\<open>str.isspace\<close> on one character, for the code points below 256: the ASCII
  whitespace (tab to carriage return, the four separators 0x1C to 0x1F, space) and
  the Latin-1 characters NEL (0x85) and no-break space (0xA0).
\<close>

definition isspace :: "char \<Rightarrow> bool" where
  "isspace c =
     (c \<in> set [CHR 0x09, CHR 0x0A, CHR 0x0B, CHR 0x0C, CHR 0x0D,
                CHR 0x1C, CHR 0x1D, CHR 0x1E, CHR 0x1F, CHR 0x20,
                CHR 0x85, CHR 0xA0])"

text \<open>\<^verbatim>\<open>s.strip()\<close>: leading and trailing whitespace removed.\<close>

definition strip :: "string \<Rightarrow> string" where
  "strip s = dropWhile isspace (rev (dropWhile isspace (rev s)))"

text \<open>\<^verbatim>\<open>s.lstrip(chars)\<close>: the leading characters that occur in \<^verbatim>\<open>chars\<close> removed.\<close>

definition lstrip :: "string \<Rightarrow> string \<Rightarrow> string" where
  "lstrip s chars = dropWhile (\<lambda>c. c \<in> set chars) s"


section \<open>The command line: class \<^verbatim>\<open>Command\<close>\<close>

text \<open>The signals a \<^verbatim>\<open>Command\<close> emits, with their argument.\<close>

datatype signal =
    got_cmd string
  | got_search string
  | got_search_rev string
  | hide_completion

text \<open>
  \<^verbatim>\<open>_tmphist\<close> is a reference to a list. \<^verbatim>\<open>_histbrowse_start\<close> either binds it
  to a fresh list (the comprehension) or to the very list object \<^verbatim>\<open>history\<close>
  (\<^verbatim>\<open>self._tmphist = self.history\<close>), which \<^verbatim>\<open>process_cmdline\<close> later mutates with
  \<^verbatim>\<open>append\<close>. \<open>Shared\<close> is the alias of \<^verbatim>\<open>history\<close>; \<open>Own xs\<close> is a list
  of its own, which nothing mutates.
\<close>

datatype tmpref = Shared | Own "string list"

record command =
  line_text :: string
  history :: "string list"
  tmphist :: tmpref
  histpos :: "int option"
  has_focus :: bool
  emitted :: "signal list"

text \<open>The list \<^verbatim>\<open>self._tmphist\<close> refers to at the moment it is read.\<close>

definition tmphist_val :: "command \<Rightarrow> string list" where
  "tmphist_val s = (case tmphist s of Shared \<Rightarrow> history s | Own xs \<Rightarrow> xs)"

text \<open>
  The class attributes \<^verbatim>\<open>history = []\<close>, \<^verbatim>\<open>_tmphist = []\<close> (two different
  list objects), \<^verbatim>\<open>_histpos = None\<close>, and an empty line edit.
\<close>

definition init :: command where
  "init = \<lparr>line_text = [], history = [], tmphist = Own [], histpos = None,
           has_focus = False, emitted = []\<rparr>"

text \<open>
  A call either returns, with the state it leaves (\<open>Inr\<close>), or raises, with the
  state at the moment of the raise (\<open>Inl\<close>): what a method has mutated before an
  exception stays mutated.
\<close>

type_synonym outcome = "(error \<times> command) + command"

definition state_of :: "outcome \<Rightarrow> command" where
  "state_of r = (case r of Inl (e, s) \<Rightarrow> s | Inr s \<Rightarrow> s)"

text \<open>The dictionary \<^verbatim>\<open>signals\<close> of \<^verbatim>\<open>process_cmdline\<close>.\<close>

definition signals :: "char \<rightharpoonup> (string \<Rightarrow> signal)" where
  "signals = [CHR '':'' \<mapsto> got_cmd, CHR ''/'' \<mapsto> got_search, CHR ''?'' \<mapsto> got_search_rev]"

definition histbrowse_stop :: "command \<Rightarrow> command" where
  "histbrowse_stop s = s\<lparr>histpos := None\<rparr>"

definition process_cmdline :: "command \<Rightarrow> outcome" where
  "process_cmdline s0 =
     (let s1 = histbrowse_stop s0;
          text = line_text s1;
          s2 = (if history s1 = [] \<or> text \<noteq> last (history s1)
                then s1\<lparr>history := history s1 @ [text]\<rparr> else s1);
          s3 = s2\<lparr>line_text := []\<rparr>
      in case py_index text 0 of
           Inl e \<Rightarrow> Inl (e, s3)
         | Inr c \<Rightarrow>
             (case signals c of
                None \<Rightarrow> Inr s3
              | Some sig \<Rightarrow> Inr (s3\<lparr>emitted := emitted s3 @ [sig (lstrip text [c])]\<rparr>)))"

definition set_cmd :: "string \<Rightarrow> command \<Rightarrow> command" where
  "set_cmd text s = s\<lparr>line_text := text, has_focus := True\<rparr>"

definition append_cmd :: "string \<Rightarrow> command \<Rightarrow> command" where
  "append_cmd text s = s\<lparr>line_text := CHR '':'' # text, has_focus := True\<rparr>"

text \<open>\<^verbatim>\<open>Qt.FocusReason\<close>.\<close>

datatype focus_reason =
    MouseFocusReason | TabFocusReason | BacktabFocusReason | ActiveWindowFocusReason
  | PopupFocusReason | ShortcutFocusReason | MenuBarFocusReason | OtherFocusReason
  | NoFocusReason

definition focusOutEvent :: "focus_reason \<Rightarrow> command \<Rightarrow> command" where
  "focusOutEvent reason s =
     (let s1 = (if reason \<in> set [MouseFocusReason, TabFocusReason,
                                  BacktabFocusReason, OtherFocusReason]
                then histbrowse_stop (s\<lparr>line_text := []\<rparr>) else s)
      in s1\<lparr>emitted := emitted s1 @ [hide_completion], has_focus := False\<rparr>)"

definition histbrowse_start :: "command \<Rightarrow> command" where
  "histbrowse_start s =
     (let pre = strip (line_text s);
          s1 = (if pre \<noteq> []
                then s\<lparr>tmphist := Own (filter (\<lambda>e. startswith e pre) (history s))\<rparr>
                else s\<lparr>tmphist := Shared\<rparr>)
      in s1\<lparr>histpos := Some (int (length (tmphist_val s1)) - 1)\<rparr>)"

text \<open>
  The last line of both key handlers,
  \<^verbatim>\<open>self.set_cmd(self._tmphist[self._histpos])\<close>. Indexing a list with
  \<^verbatim>\<open>None\<close> raises \<^verbatim>\<open>TypeError\<close>.
\<close>

definition set_cmd_current :: "command \<Rightarrow> outcome" where
  "set_cmd_current s =
     (case histpos s of
        None \<Rightarrow> Inl (TypeError, s)
      | Some p \<Rightarrow>
          (case py_index (tmphist_val s) p of
             Inl e \<Rightarrow> Inl (e, s)
           | Inr entry \<Rightarrow> Inr (set_cmd entry s)))"

definition key_up_handler :: "command \<Rightarrow> outcome" where
  "key_up_handler s =
     (case histpos s of
        None \<Rightarrow>
          (let s1 = histbrowse_start s
           in if tmphist_val s1 = [] then Inr s1 else set_cmd_current s1)
      | Some p \<Rightarrow>
          if p \<le> 0 then Inr s
          else (let s1 = s\<lparr>histpos := Some (p - 1)\<rparr>
                in if tmphist_val s1 = [] then Inr s1 else set_cmd_current s1))"

definition key_down_handler :: "command \<Rightarrow> outcome" where
  "key_down_handler s =
     (case histpos s of
        None \<Rightarrow> Inr s
      | Some p \<Rightarrow>
          if p \<ge> int (length (tmphist_val s)) - 1 \<or> tmphist_val s = [] then Inr s
          else set_cmd_current (s\<lparr>histpos := Some (p + 1)\<rparr>))"


subsection \<open>The events a command line receives\<close>

text \<open>
  \<open>TextEdited t\<close>: the user edits the line to \<open>t\<close>, and the signal
  \<^verbatim>\<open>textEdited\<close> calls \<^verbatim>\<open>_histbrowse_stop\<close>. \<open>KeyUp\<close>, \<open>KeyDown\<close>: the two
  shortcuts. \<open>ReturnPressed\<close>: \<^verbatim>\<open>returnPressed\<close> calls \<^verbatim>\<open>process_cmdline\<close>.
  \<open>SetCmd\<close>, \<open>AppendCmd\<close>, \<open>FocusOut\<close>: the callers of \<^verbatim>\<open>set_cmd\<close>,
  \<^verbatim>\<open>append_cmd\<close> and \<^verbatim>\<open>focusOutEvent\<close>. A handler that raises leaves the state
  it had reached, and the next event finds it so.
\<close>

datatype event =
    TextEdited string
  | SetCmd string
  | AppendCmd string
  | KeyUp
  | KeyDown
  | ReturnPressed
  | FocusOut focus_reason

fun step :: "command \<Rightarrow> event \<Rightarrow> command" where
  "step s (TextEdited t) = histbrowse_stop (s\<lparr>line_text := t\<rparr>)"
| "step s (SetCmd t) = set_cmd t s"
| "step s (AppendCmd t) = append_cmd t s"
| "step s KeyUp = state_of (key_up_handler s)"
| "step s KeyDown = state_of (key_down_handler s)"
| "step s ReturnPressed = state_of (process_cmdline s)"
| "step s (FocusOut r) = focusOutEvent r s"

definition run :: "event list \<Rightarrow> command \<Rightarrow> command" where
  "run evs s = foldl step s evs"


section \<open>The validator: class \<^verbatim>\<open>CommandValidator\<close>\<close>

text \<open>\<^verbatim>\<open>QValidator.State\<close>.\<close>

datatype qvalidator_state = Invalid | Intermediate | Acceptable

text \<open>
  \<^verbatim>\<open>keys.startchars\<close> is defined in another module; it is the parameter
  \<open>startchars\<close>, the list of the strings that iterating over it yields.
\<close>

definition validate :: "string list \<Rightarrow> string \<Rightarrow> int \<Rightarrow> qvalidator_state \<times> string \<times> int" where
  "validate startchars string pos =
     (if list_ex (\<lambda>c. startswith string c) startchars
      then (Acceptable, string, pos)
      else (Invalid, string, pos))"


section \<open>The text label: class \<^verbatim>\<open>Text\<close>\<close>

record text_label =
  label_text :: string
  old_text :: string

definition set_error :: "string \<Rightarrow> text_label \<Rightarrow> text_label" where
  "set_error text w = (w\<lparr>old_text := label_text w\<rparr>)\<lparr>label_text := text\<rparr>"

definition clear_error :: "text_label \<Rightarrow> text_label" where
  "clear_error w = w\<lparr>label_text := old_text w\<rparr>"


section \<open>The cursor invariant\<close>

text \<open>
  While a browsing session is open the position is between \<open>-1\<close> and the last
  index of the list \<^verbatim>\<open>_tmphist\<close> refers to, and it is \<open>-1\<close> only for an empty list.
\<close>

definition cursor_ok :: "command \<Rightarrow> bool" where
  "cursor_ok s =
     (case histpos s of
        None \<Rightarrow> True
      | Some p \<Rightarrow> - 1 \<le> p \<and> p \<le> int (length (tmphist_val s)) - 1
                 \<and> (0 \<le> p \<or> tmphist_val s = []))"


section \<open>Auxiliary facts\<close>

subsection \<open>Primitives, runs and the cursor invariant\<close>

lemma startswith_iff: "startswith s p \<longleftrightarrow> (\<exists>r. s = p @ r)"
  unfolding startswith_def
  by (metis append_eq_conv_conj append_take_drop_id)

lemma py_index_in_range:
  "0 \<le> i \<Longrightarrow> i < int (length xs) \<Longrightarrow> py_index xs i = Inr (xs ! nat i)"
  by (simp add: py_index_def)

lemma py_index_empty: "py_index [] i = Inl IndexError"
  by (simp add: py_index_def Let_def)

lemma run_Nil: "run [] s = s"
  by (simp add: run_def)

lemma run_snoc: "run (evs @ [e]) s = step (run evs s) e"
  by (simp add: run_def)

lemma run_Cons: "run (e # evs) s = run evs (step s e)"
  by (simp add: run_def)

lemma cursor_ok_init: "cursor_ok init"
  by (simp add: cursor_ok_def init_def)

lemma cursor_ok_stop: "cursor_ok (histbrowse_stop s)"
  by (simp add: cursor_ok_def histbrowse_stop_def)

lemma tmphist_val_histpos_update: "tmphist_val (s\<lparr>histpos := x\<rparr>) = tmphist_val s"
  by (simp add: tmphist_val_def split: tmpref.splits)

lemma tmphist_val_line_text_update: "tmphist_val (s\<lparr>line_text := x\<rparr>) = tmphist_val s"
  by (simp add: tmphist_val_def split: tmpref.splits)

lemma tmphist_val_has_focus_update: "tmphist_val (s\<lparr>has_focus := x\<rparr>) = tmphist_val s"
  by (simp add: tmphist_val_def split: tmpref.splits)

lemma tmphist_val_emitted_update: "tmphist_val (s\<lparr>emitted := x\<rparr>) = tmphist_val s"
  by (simp add: tmphist_val_def split: tmpref.splits)

lemmas tmphist_val_updates =
  tmphist_val_histpos_update tmphist_val_line_text_update
  tmphist_val_has_focus_update tmphist_val_emitted_update

lemma tmphist_val_set_cmd: "tmphist_val (set_cmd t s) = tmphist_val s"
  by (simp add: set_cmd_def tmphist_val_updates)

lemma cursor_ok_start: "cursor_ok (histbrowse_start s)"
  by (auto simp: cursor_ok_def histbrowse_start_def Let_def tmphist_val_updates)

lemma histpos_set_cmd: "histpos (set_cmd t s) = histpos s"
  by (simp add: set_cmd_def)

lemma cursor_ok_set_cmd: "cursor_ok s \<Longrightarrow> cursor_ok (set_cmd t s)"
  by (simp add: cursor_ok_def tmphist_val_set_cmd histpos_set_cmd split: option.splits)

lemma cursor_ok_set_cmd_current:
  "cursor_ok s \<Longrightarrow> cursor_ok (state_of (set_cmd_current s))"
  by (auto simp: set_cmd_current_def state_of_def cursor_ok_set_cmd
           split: option.splits sum.splits)

lemma cursor_ok_key_up: "cursor_ok s \<Longrightarrow> cursor_ok (state_of (key_up_handler s))"
proof (cases "histpos s")
  case None
  then show ?thesis
    using cursor_ok_start [of s] cursor_ok_set_cmd_current [of "histbrowse_start s"]
    by (simp add: key_up_handler_def Let_def state_of_def)
next
  case (Some p)
  assume ok: "cursor_ok s"
  show ?thesis
  proof (cases "p \<le> 0")
    case True
    with Some ok show ?thesis by (simp add: key_up_handler_def state_of_def)
  next
    case False
    let ?s1 = "s\<lparr>histpos := Some (p - 1)\<rparr>"
    have "cursor_ok ?s1"
      using ok Some False by (simp add: cursor_ok_def tmphist_val_updates)
    then have "cursor_ok (state_of (set_cmd_current ?s1))"
      by (rule cursor_ok_set_cmd_current)
    with Some False \<open>cursor_ok ?s1\<close> show ?thesis
      by (simp add: key_up_handler_def Let_def state_of_def)
  qed
qed

lemma cursor_ok_key_down: "cursor_ok s \<Longrightarrow> cursor_ok (state_of (key_down_handler s))"
proof (cases "histpos s")
  case None
  assume "cursor_ok s"
  with None show ?thesis by (simp add: key_down_handler_def state_of_def)
next
  case (Some p)
  assume ok: "cursor_ok s"
  show ?thesis
  proof (cases "p \<ge> int (length (tmphist_val s)) - 1 \<or> tmphist_val s = []")
    case True
    with Some ok show ?thesis by (simp add: key_down_handler_def state_of_def)
  next
    case False
    let ?s1 = "s\<lparr>histpos := Some (p + 1)\<rparr>"
    have "cursor_ok ?s1"
      using ok Some False by (simp add: cursor_ok_def tmphist_val_updates)
    then have "cursor_ok (state_of (set_cmd_current ?s1))"
      by (rule cursor_ok_set_cmd_current)
    with Some False show ?thesis
      by (simp add: key_down_handler_def state_of_def)
  qed
qed

lemma histpos_process_cmdline: "histpos (state_of (process_cmdline s)) = None"
  by (simp add: process_cmdline_def Let_def state_of_def histbrowse_stop_def
           split: sum.splits option.splits)

lemma cursor_ok_process_cmdline: "cursor_ok (state_of (process_cmdline s))"
  by (simp add: cursor_ok_def histpos_process_cmdline)

lemma cursor_ok_focus_out: "cursor_ok s \<Longrightarrow> cursor_ok (focusOutEvent r s)"
  by (auto simp: cursor_ok_def focusOutEvent_def Let_def histbrowse_stop_def tmphist_val_updates
           split: option.splits)

lemma cursor_ok_step: "cursor_ok s \<Longrightarrow> cursor_ok (step s e)"
proof (cases e)
  case (TextEdited t)
  then show ?thesis by (simp add: cursor_ok_stop)
next
  case (SetCmd t)
  assume "cursor_ok s"
  with SetCmd show ?thesis by (simp add: cursor_ok_set_cmd)
next
  case (AppendCmd t)
  assume "cursor_ok s"
  with AppendCmd show ?thesis
    by (simp add: cursor_ok_def append_cmd_def tmphist_val_updates split: option.splits)
next
  case KeyUp
  assume "cursor_ok s"
  with KeyUp show ?thesis by (simp add: cursor_ok_key_up)
next
  case KeyDown
  assume "cursor_ok s"
  with KeyDown show ?thesis by (simp add: cursor_ok_key_down)
next
  case ReturnPressed
  then show ?thesis by (simp add: cursor_ok_process_cmdline)
next
  case (FocusOut r)
  assume "cursor_ok s"
  with FocusOut show ?thesis by (simp add: cursor_ok_focus_out)
qed

lemma cursor_ok_run: "cursor_ok s \<Longrightarrow> cursor_ok (run evs s)"
  by (induction evs rule: rev_induct) (simp_all add: run_Nil run_snoc cursor_ok_step)

lemma cursor_ok_reachable: "cursor_ok (run evs init)"
  by (rule cursor_ok_run [OF cursor_ok_init])


subsection \<open>What \<^verbatim>\<open>strip\<close> removes\<close>

lemma dropWhile_decomp:
  "\<exists>l. xs = l @ dropWhile P xs \<and> (\<forall>c\<in>set l. P c)"
  by (metis takeWhile_dropWhile_id set_takeWhileD)

lemma strip_decomp:
  "\<exists>l r. s = l @ strip s @ r \<and> (\<forall>c\<in>set l. isspace c) \<and> (\<forall>c\<in>set r. isspace c)"
proof -
  obtain r' where r': "rev s = r' @ dropWhile isspace (rev s)" "\<forall>c\<in>set r'. isspace c"
    using dropWhile_decomp [of "rev s" isspace] by blast
  let ?m = "rev (dropWhile isspace (rev s))"
  obtain l where l: "?m = l @ dropWhile isspace ?m" "\<forall>c\<in>set l. isspace c"
    using dropWhile_decomp [of ?m isspace] by blast
  have "s = ?m @ rev r'"
    using r'(1) by (metis rev_append rev_rev_ident)
  with l(1) have "s = l @ strip s @ rev r'"
    unfolding strip_def by (metis append.assoc)
  with l(2) r'(2) show ?thesis
    by (metis set_rev)
qed

lemma strip_no_leading_space: "strip s \<noteq> [] \<Longrightarrow> \<not> isspace (hd (strip s))"
  unfolding strip_def by (rule hd_dropWhile)

lemma dropWhile_last:
  "dropWhile P xs \<noteq> [] \<Longrightarrow> last (dropWhile P xs) = last xs"
  by (induction xs) (auto split: if_splits)

lemma strip_no_trailing_space: "strip s \<noteq> [] \<Longrightarrow> \<not> isspace (last (strip s))"
proof -
  assume ne: "strip s \<noteq> []"
  let ?m = "rev (dropWhile isspace (rev s))"
  have m: "?m \<noteq> []" using ne unfolding strip_def by (metis dropWhile.simps(1))
  have "last (strip s) = last ?m"
    using ne unfolding strip_def by (rule dropWhile_last)
  also have "\<dots> = hd (dropWhile isspace (rev s))"
    using m by (simp add: last_rev)
  finally show ?thesis
    using m by (simp add: hd_dropWhile)
qed

subsection \<open>The history log under the events\<close>

lemma history_process_cmdline:
  "history (state_of (process_cmdline s)) =
     (if history s = [] \<or> line_text s \<noteq> last (history s)
      then history s @ [line_text s] else history s)"
  by (simp add: process_cmdline_def Let_def state_of_def histbrowse_stop_def
           split: sum.splits option.splits)

lemma distinct_adj_snoc:
  "distinct_adj (xs @ [x]) \<longleftrightarrow> distinct_adj xs \<and> (xs = [] \<or> last xs \<noteq> x)"
  by (simp add: distinct_adj_append_iff)

lemma distinct_adj_process_cmdline:
  "distinct_adj (history s) \<Longrightarrow> distinct_adj (history (state_of (process_cmdline s)))"
  by (auto simp: history_process_cmdline distinct_adj_snoc)

lemma history_set_cmd_current: "history (state_of (set_cmd_current s)) = history s"
  by (simp add: set_cmd_current_def state_of_def set_cmd_def split: option.splits sum.splits)

lemma history_histbrowse_start: "history (histbrowse_start s) = history s"
  by (simp add: histbrowse_start_def Let_def)

lemma history_key_up: "history (state_of (key_up_handler s)) = history s"
proof (cases "histpos s")
  case None
  then show ?thesis
    using history_set_cmd_current [of "histbrowse_start s"]
    by (simp add: key_up_handler_def Let_def history_histbrowse_start)
       (simp add: state_of_def history_histbrowse_start)
next
  case (Some p)
  then show ?thesis
    using history_set_cmd_current [of "s\<lparr>histpos := Some (p - 1)\<rparr>"]
    by (simp add: key_up_handler_def Let_def) (simp add: state_of_def)
qed

lemma history_key_down: "history (state_of (key_down_handler s)) = history s"
proof (cases "histpos s")
  case None
  then show ?thesis by (simp add: key_down_handler_def state_of_def)
next
  case (Some p)
  then show ?thesis
    using history_set_cmd_current [of "s\<lparr>histpos := Some (p + 1)\<rparr>"]
    by (simp add: key_down_handler_def) (simp add: state_of_def)
qed

lemma distinct_adj_step:
  "distinct_adj (history s) \<Longrightarrow> distinct_adj (history (step s e))"
  by (cases e)
     (simp_all add: histbrowse_stop_def set_cmd_def append_cmd_def history_key_up
        history_key_down distinct_adj_process_cmdline focusOutEvent_def Let_def)

lemma distinct_adj_run:
  "distinct_adj (history s) \<Longrightarrow> distinct_adj (history (run evs s))"
  by (induction evs rule: rev_induct) (simp_all add: run_Nil run_snoc distinct_adj_step)

lemma distinct_adj_reachable: "distinct_adj (history (run evs init))"
  by (rule distinct_adj_run) (simp add: init_def)


subsection \<open>The browsing operations, case by case\<close>

lemma tmphist_val_histbrowse_start:
  "tmphist_val (histbrowse_start s) =
     (if strip (line_text s) \<noteq> []
      then filter (\<lambda>e. startswith e (strip (line_text s))) (history s)
      else history s)"
  by (simp add: histbrowse_start_def Let_def tmphist_val_updates)
     (simp add: tmphist_val_def)

lemma histpos_histbrowse_start:
  "histpos (histbrowse_start s) = Some (int (length (tmphist_val (histbrowse_start s))) - 1)"
  by (simp add: histbrowse_start_def Let_def tmphist_val_updates)

lemma line_text_histbrowse_start: "line_text (histbrowse_start s) = line_text s"
  by (simp add: histbrowse_start_def Let_def)

lemma startswith_filter_iff:
  "filter (\<lambda>e. startswith e p) xs = filter (\<lambda>e. \<exists>r. e = p @ r) xs"
  by (simp add: startswith_iff)

lemma set_cmd_current_in_range:
  "histpos s = Some p \<Longrightarrow> 0 \<le> p \<Longrightarrow> p < int (length (tmphist_val s)) \<Longrightarrow>
   set_cmd_current s = Inr (set_cmd (tmphist_val s ! nat p) s)"
  by (simp add: set_cmd_current_def py_index_in_range)

lemma key_up_inactive:
  assumes "histpos s = None"
  shows "key_up_handler s =
     (if tmphist_val (histbrowse_start s) = [] then Inr (histbrowse_start s)
      else Inr (set_cmd (last (tmphist_val (histbrowse_start s))) (histbrowse_start s)))"
proof (cases "tmphist_val (histbrowse_start s) = []")
  case True
  with assms show ?thesis by (simp add: key_up_handler_def Let_def)
next
  case False
  let ?s1 = "histbrowse_start s"
  let ?xs = "tmphist_val ?s1"
  have p: "histpos ?s1 = Some (int (length ?xs) - 1)" by (rule histpos_histbrowse_start)
  have "set_cmd_current ?s1 = Inr (set_cmd (?xs ! nat (int (length ?xs) - 1)) ?s1)"
    using False by (intro set_cmd_current_in_range [OF p]) auto
  moreover have "nat (int (length ?xs) - 1) = length ?xs - 1"
    by arith
  then have "?xs ! nat (int (length ?xs) - 1) = last ?xs"
    using False by (simp add: last_conv_nth)
  ultimately show ?thesis
    using assms False by (simp add: key_up_handler_def Let_def)
qed

lemma key_down_inactive: "histpos s = None \<Longrightarrow> key_down_handler s = Inr s"
  by (simp add: key_down_handler_def)

lemma key_up_at_edge: "histpos s = Some p \<Longrightarrow> p \<le> 0 \<Longrightarrow> key_up_handler s = Inr s"
  by (simp add: key_up_handler_def)

lemma key_down_at_edge:
  "histpos s = Some p \<Longrightarrow> int (length (tmphist_val s)) - 1 \<le> p \<Longrightarrow> key_down_handler s = Inr s"
  by (simp add: key_down_handler_def)

lemma key_up_inside:
  assumes "histpos s = Some p" "0 < p" "p < int (length (tmphist_val s))"
  shows "key_up_handler s =
     Inr (s\<lparr>histpos := Some (p - 1), line_text := tmphist_val s ! nat (p - 1),
           has_focus := True\<rparr>)"
proof -
  let ?s1 = "s\<lparr>histpos := Some (p - 1)\<rparr>"
  have v: "tmphist_val ?s1 = tmphist_val s" by (rule tmphist_val_histpos_update)
  have "set_cmd_current ?s1 = Inr (set_cmd (tmphist_val ?s1 ! nat (p - 1)) ?s1)"
    using assms by (intro set_cmd_current_in_range) (simp_all add: v)
  moreover have "tmphist_val s \<noteq> []" using assms by auto
  ultimately show ?thesis
    using assms by (simp add: key_up_handler_def Let_def v set_cmd_def)
qed

lemma key_down_inside:
  assumes "histpos s = Some p" "- 1 \<le> p" "p < int (length (tmphist_val s)) - 1"
  shows "key_down_handler s =
     Inr (s\<lparr>histpos := Some (p + 1), line_text := tmphist_val s ! nat (p + 1),
           has_focus := True\<rparr>)"
proof -
  let ?s1 = "s\<lparr>histpos := Some (p + 1)\<rparr>"
  have v: "tmphist_val ?s1 = tmphist_val s" by (rule tmphist_val_histpos_update)
  have "set_cmd_current ?s1 = Inr (set_cmd (tmphist_val ?s1 ! nat (p + 1)) ?s1)"
    using assms by (intro set_cmd_current_in_range) (simp_all add: v)
  moreover have "tmphist_val s \<noteq> []" using assms by auto
  ultimately show ?thesis
    using assms by (simp add: key_down_handler_def Let_def v set_cmd_def)
qed

lemma cursor_okD:
  "cursor_ok s \<Longrightarrow> histpos s = Some p \<Longrightarrow>
   - 1 \<le> p \<and> p \<le> int (length (tmphist_val s)) - 1 \<and> (0 \<le> p \<or> tmphist_val s = [])"
  by (simp add: cursor_ok_def)

lemma key_up_returns: "cursor_ok s \<Longrightarrow> \<exists>s'. key_up_handler s = Inr s'"
proof (cases "histpos s")
  case None
  then show ?thesis using key_up_inactive [of s] by auto
next
  case (Some p)
  assume ok: "cursor_ok s"
  show ?thesis
  proof (cases "p \<le> 0")
    case True
    with Some show ?thesis by (simp add: key_up_at_edge)
  next
    case False
    with cursor_okD [OF ok Some] Some show ?thesis
      by (simp add: key_up_inside)
  qed
qed

lemma key_down_returns: "cursor_ok s \<Longrightarrow> \<exists>s'. key_down_handler s = Inr s'"
proof (cases "histpos s")
  case None
  then show ?thesis by (simp add: key_down_inactive)
next
  case (Some p)
  assume ok: "cursor_ok s"
  show ?thesis
  proof (cases "int (length (tmphist_val s)) - 1 \<le> p")
    case True
    with Some show ?thesis by (simp add: key_down_at_edge)
  next
    case False
    with cursor_okD [OF ok Some] Some show ?thesis
      by (simp add: key_down_inside)
  qed
qed

subsection \<open>Concrete runs\<close>

lemma recorded_a_a_b:
  "run [TextEdited '':a'', ReturnPressed, TextEdited '':a'', ReturnPressed,
        TextEdited '':b'', ReturnPressed] init =
   \<lparr>line_text = [], history = ['':a'', '':b''], tmphist = Own [], histpos = None,
    has_focus = False, emitted = [got_cmd ''a'', got_cmd ''a'', got_cmd ''b'']\<rparr>"
  by (simp add: run_def init_def process_cmdline_def histbrowse_stop_def Let_def
        py_index_def signals_def state_of_def lstrip_def)

lemma recorded_abc:
  "run [TextEdited ''a'', ReturnPressed, TextEdited ''b'', ReturnPressed,
        TextEdited ''c'', ReturnPressed] init =
   \<lparr>line_text = [], history = [''a'', ''b'', ''c''], tmphist = Own [], histpos = None,
    has_focus = False, emitted = []\<rparr>"
  by (simp add: run_def init_def process_cmdline_def histbrowse_stop_def Let_def
        py_index_def signals_def state_of_def)

lemma recorded_abc_start:
  "histbrowse_start (run [TextEdited ''a'', ReturnPressed, TextEdited ''b'', ReturnPressed,
        TextEdited ''c'', ReturnPressed] init) =
   \<lparr>line_text = [], history = [''a'', ''b'', ''c''], tmphist = Shared, histpos = Some 2,
    has_focus = False, emitted = []\<rparr>"
  by (simp add: recorded_abc histbrowse_start_def Let_def strip_def tmphist_val_def)

lemma recorded_abc_b:
  "run [TextEdited ''a'', ReturnPressed, TextEdited ''b'', ReturnPressed,
        TextEdited ''c'', ReturnPressed, TextEdited ''b''] init =
   \<lparr>line_text = ''b'', history = [''a'', ''b'', ''c''], tmphist = Own [], histpos = None,
    has_focus = False, emitted = []\<rparr>"
  using run_snoc [of "[TextEdited ''a'', ReturnPressed, TextEdited ''b'', ReturnPressed,
        TextEdited ''c'', ReturnPressed]" "TextEdited ''b''" init]
  by (simp add: recorded_abc histbrowse_stop_def)

lemma recorded_abc_b_start:
  "histbrowse_start (run [TextEdited ''a'', ReturnPressed, TextEdited ''b'', ReturnPressed,
        TextEdited ''c'', ReturnPressed, TextEdited ''b''] init) =
   \<lparr>line_text = ''b'', history = [''a'', ''b'', ''c''], tmphist = Own [''b''],
    histpos = Some 0, has_focus = False, emitted = []\<rparr>"
  by (simp add: recorded_abc_b histbrowse_start_def Let_def strip_def isspace_def
        startswith_def tmphist_val_def)

lemma recorded_abc_padded_start:
  "histbrowse_start (\<lparr>line_text = '' b  '', history = [''a'', ''b'', ''c''],
      tmphist = Own [], histpos = None, has_focus = False, emitted = []\<rparr>) =
   \<lparr>line_text = '' b  '', history = [''a'', ''b'', ''c''], tmphist = Own [''b''],
    histpos = Some 0, has_focus = False, emitted = []\<rparr>"
  by (simp add: histbrowse_start_def Let_def strip_def isspace_def startswith_def
        tmphist_val_def)

lemma histbrowse_start_empty:
  assumes "tmphist_val (histbrowse_start s) = []"
  shows "histbrowse_start s =
     s\<lparr>tmphist := (if strip (line_text s) \<noteq> [] then Own [] else Shared),
       histpos := Some (- 1)\<rparr>"
proof (cases "strip (line_text s) \<noteq> []")
  case True
  with assms have "filter (\<lambda>e. startswith e (strip (line_text s))) (history s) = []"
    by (simp add: tmphist_val_histbrowse_start)
  with True show ?thesis
    by (simp add: histbrowse_start_def Let_def tmphist_val_def)
next
  case False
  with assms have "history s = []"
    by (simp add: tmphist_val_histbrowse_start)
  with False show ?thesis
    by (simp add: histbrowse_start_def Let_def tmphist_val_def)
qed

lemma histbrowse_start_empty_history:
  "history s = [] \<Longrightarrow> tmphist_val (histbrowse_start s) = []"
  by (simp add: tmphist_val_histbrowse_start)

lemma recorded_a:
  "run [TextEdited '':a'', ReturnPressed] init =
   \<lparr>line_text = [], history = ['':a''], tmphist = Own [], histpos = None,
    has_focus = False, emitted = [got_cmd ''a'']\<rparr>"
  by (simp add: run_def init_def process_cmdline_def histbrowse_stop_def Let_def
        py_index_def signals_def state_of_def lstrip_def)

lemma recorded_a_zzz:
  "run [TextEdited '':a'', ReturnPressed, TextEdited '':zzz''] init =
   \<lparr>line_text = '':zzz'', history = ['':a''], tmphist = Own [], histpos = None,
    has_focus = False, emitted = [got_cmd ''a'']\<rparr>"
  using run_snoc [of "[TextEdited '':a'', ReturnPressed]" "TextEdited '':zzz''" init]
  by (simp add: recorded_a histbrowse_stop_def)

lemma recorded_a_zzz_start:
  "histbrowse_start (run [TextEdited '':a'', ReturnPressed, TextEdited '':zzz''] init) =
   \<lparr>line_text = '':zzz'', history = ['':a''], tmphist = Own [], histpos = Some (- 1),
    has_focus = False, emitted = [got_cmd ''a'']\<rparr>"
  by (simp add: recorded_a_zzz histbrowse_start_def Let_def strip_def isspace_def
        startswith_def tmphist_val_def)

lemma recorded_a_start:
  "histbrowse_start (run [TextEdited '':a'', ReturnPressed] init) =
   \<lparr>line_text = [], history = ['':a''], tmphist = Shared, histpos = Some 0,
    has_focus = False, emitted = [got_cmd ''a'']\<rparr>"
  by (simp add: recorded_a histbrowse_start_def Let_def strip_def tmphist_val_def)

lemma init_start:
  "histbrowse_start init =
   \<lparr>line_text = [], history = [], tmphist = Shared, histpos = Some (- 1),
    has_focus = False, emitted = []\<rparr>"
  by (simp add: init_def histbrowse_start_def Let_def strip_def tmphist_val_def)

lemma init_key_up: "run [KeyUp] init = histbrowse_start init"
proof -
  have "histpos init = None" by (simp add: init_def)
  then have "key_up_handler init = Inr (histbrowse_start init)"
    by (simp add: key_up_inactive init_start tmphist_val_def)
  then show ?thesis by (simp add: run_def state_of_def)
qed

lemma browsing_abc_up:
  "run [TextEdited ''a'', ReturnPressed, TextEdited ''b'', ReturnPressed,
        TextEdited ''c'', ReturnPressed, KeyUp] init =
   \<lparr>line_text = ''c'', history = [''a'', ''b'', ''c''], tmphist = Shared, histpos = Some 2,
    has_focus = True, emitted = []\<rparr>"
proof -
  have "histpos (run [TextEdited ''a'', ReturnPressed, TextEdited ''b'', ReturnPressed,
        TextEdited ''c'', ReturnPressed] init) = None"
    by (simp add: recorded_abc)
  then show ?thesis
    using run_snoc [of "[TextEdited ''a'', ReturnPressed, TextEdited ''b'', ReturnPressed,
        TextEdited ''c'', ReturnPressed]" KeyUp init]
    by (simp add: key_up_inactive recorded_abc_start tmphist_val_def state_of_def set_cmd_def)
qed

lemma browsing_abc_up_up:
  "run [TextEdited ''a'', ReturnPressed, TextEdited ''b'', ReturnPressed,
        TextEdited ''c'', ReturnPressed, KeyUp, KeyUp] init =
   \<lparr>line_text = ''b'', history = [''a'', ''b'', ''c''], tmphist = Shared, histpos = Some 1,
    has_focus = True, emitted = []\<rparr>"
  using run_snoc [of "[TextEdited ''a'', ReturnPressed, TextEdited ''b'', ReturnPressed,
        TextEdited ''c'', ReturnPressed, KeyUp]" KeyUp init]
  by (simp add: browsing_abc_up state_of_def
        key_up_inside [where p = 2] tmphist_val_def)

text \<open>The error branches of the key handlers are live: outside the invariant they raise.\<close>

lemma key_down_handler_can_raise:
  "key_down_handler (init\<lparr>tmphist := Own [''a''], histpos := Some (- 5)\<rparr>) =
     Inl (IndexError, init\<lparr>tmphist := Own [''a''], histpos := Some (- 4)\<rparr>)"
  by (simp add: key_down_handler_def set_cmd_current_def py_index_def init_def
        tmphist_val_def)

lemma key_up_handler_can_raise:
  "key_up_handler (init\<lparr>tmphist := Own [''a''], histpos := Some 5\<rparr>) =
     Inl (IndexError, init\<lparr>tmphist := Own [''a''], histpos := Some 4\<rparr>)"
  by (simp add: key_up_handler_def set_cmd_current_def py_index_def init_def
        tmphist_val_def)


section \<open>Properties\<close>

subsection \<open>The text label\<close>

text \<open>
  C10: on the \<^verbatim>\<open>Text\<close> label, \<^verbatim>\<open>set_error(m)\<close> followed by \<^verbatim>\<open>clear_error()\<close>
  restores the displayed text: the label shows the message in between, then again
  whatever it showed before the message, which is also the text it keeps saved.
\<close>

theorem set_error_clear_error_roundtrip:
  "label_text (clear_error (set_error m w)) = label_text w \<and>
   label_text (set_error m w) = m \<and>
   old_text (clear_error (set_error m w)) = label_text w"
  by (simp add: set_error_def clear_error_def)


subsection \<open>Recording a command\<close>

text \<open>
  C1: whatever events the command line receives, and so for every sequence of
  submissions through \<^verbatim>\<open>process_cmdline\<close>, the history log never holds two equal
  entries next to each other; and one submission appends the submitted text to the
  log exactly when the log is empty or its last entry differs from the text, and
  leaves the log as it is otherwise. The log is the one the call leaves, whether it
  returns or raises.
\<close>

theorem history_no_consecutive_duplicates:
  "distinct_adj (history (run evs init)) \<and>
   history (state_of (process_cmdline s)) =
     (if history s = [] \<or> last (history s) \<noteq> line_text s
      then history s @ [line_text s] else history s)"
  using distinct_adj_reachable [of evs] history_process_cmdline [of s] by auto

theorem history_no_consecutive_duplicates_witness:
  "distinct_adj (history (run [TextEdited '':a'', ReturnPressed, TextEdited '':a'',
       ReturnPressed, TextEdited '':b'', ReturnPressed] init)) \<and>
   history (run [TextEdited '':a'', ReturnPressed, TextEdited '':a'',
       ReturnPressed, TextEdited '':b'', ReturnPressed] init) = ['':a'', '':b''] \<and>
   history (state_of (process_cmdline
      (init\<lparr>history := ['':a''], line_text := '':a''\<rparr>))) = ['':a''] \<and>
   history (state_of (process_cmdline
      (init\<lparr>history := ['':a''], line_text := '':b''\<rparr>))) = ['':a'', '':b'']"
  using history_no_consecutive_duplicates
      [of "[TextEdited '':a'', ReturnPressed, TextEdited '':a'',
            ReturnPressed, TextEdited '':b'', ReturnPressed]"
          "init\<lparr>history := ['':a''], line_text := '':a''\<rparr>"]
    history_no_consecutive_duplicates
      [of "[]" "init\<lparr>history := ['':a''], line_text := '':b''\<rparr>"]
  by (simp add: recorded_a_a_b)

text \<open>
  C9: \<^verbatim>\<open>process_cmdline\<close> on an empty line does not return. When the log is empty
  or its last entry is not the empty string, the call stops browsing, appends the
  empty string to the log, clears the line and then raises \<^verbatim>\<open>IndexError\<close> at
  \<^verbatim>\<open>text[0]\<close>.
\<close>

theorem process_cmdline_empty_text_raises:
  "line_text s = [] \<Longrightarrow> history s = [] \<or> last (history s) \<noteq> [] \<Longrightarrow>
   process_cmdline s =
     Inl (IndexError, s\<lparr>histpos := None, history := history s @ [[]], line_text := []\<rparr>)"
  by (auto simp: process_cmdline_def Let_def histbrowse_stop_def py_index_def)

theorem process_cmdline_empty_text_raises_witness:
  "process_cmdline init =
     Inl (IndexError, \<lparr>line_text = [], history = [[]], tmphist = Own [], histpos = None,
                       has_focus = False, emitted = []\<rparr>)"
  using process_cmdline_empty_text_raises [of init] by (simp add: init_def)


subsection \<open>Starting to browse\<close>

text \<open>
  C2: for every history log and every input text, \<^verbatim>\<open>_histbrowse_start\<close> makes
  \<^verbatim>\<open>_tmphist\<close> the log entries that start with the whitespace-trimmed text, in
  the order of the log, when the trimmed text is not empty, and the whole log
  otherwise; and it sets \<^verbatim>\<open>_histpos\<close> to \<^verbatim>\<open>len(_tmphist) - 1\<close>, the last index.
  After the submissions \<open>a\<close>, \<open>b\<close>, \<open>c\<close>, starting on the empty line gives the
  three entries with position 2, and starting on the line \<open>b\<close> gives the one entry
  \<open>b\<close> with position 0.
\<close>

theorem start_browsing_filtered:
  "tmphist_val (histbrowse_start s) =
     (if strip (line_text s) \<noteq> []
      then filter (\<lambda>e. \<exists>r. e = strip (line_text s) @ r) (history s)
      else history s) \<and>
   histpos (histbrowse_start s) =
     Some (int (length (tmphist_val (histbrowse_start s))) - 1) \<and>
   tmphist_val (histbrowse_start (run [TextEdited ''a'', ReturnPressed, TextEdited ''b'',
       ReturnPressed, TextEdited ''c'', ReturnPressed] init)) = [''a'', ''b'', ''c''] \<and>
   histpos (histbrowse_start (run [TextEdited ''a'', ReturnPressed, TextEdited ''b'',
       ReturnPressed, TextEdited ''c'', ReturnPressed] init)) = Some 2 \<and>
   tmphist_val (histbrowse_start (run [TextEdited ''a'', ReturnPressed, TextEdited ''b'',
       ReturnPressed, TextEdited ''c'', ReturnPressed, TextEdited ''b''] init)) = [''b''] \<and>
   histpos (histbrowse_start (run [TextEdited ''a'', ReturnPressed, TextEdited ''b'',
       ReturnPressed, TextEdited ''c'', ReturnPressed, TextEdited ''b''] init)) = Some 0"
proof -
  have "tmphist_val (histbrowse_start s) =
     (if strip (line_text s) \<noteq> []
      then filter (\<lambda>e. \<exists>r. e = strip (line_text s) @ r) (history s)
      else history s)"
    by (simp only: tmphist_val_histbrowse_start startswith_filter_iff)
  moreover note histpos_histbrowse_start [of s]
  ultimately show ?thesis
    by (simp add: recorded_abc_start recorded_abc_b_start tmphist_val_def)
qed

theorem start_browsing_filtered_witness:
  "tmphist_val (histbrowse_start \<lparr>line_text = '' b  '', history = [''a'', ''b'', ''c''],
      tmphist = Own [], histpos = None, has_focus = False, emitted = []\<rparr>) = [''b''] \<and>
   histpos (histbrowse_start \<lparr>line_text = '' b  '', history = [''a'', ''b'', ''c''],
      tmphist = Own [], histpos = None, has_focus = False, emitted = []\<rparr>) = Some 0"
  using start_browsing_filtered [of "\<lparr>line_text = '' b  '', history = [''a'', ''b'', ''c''],
      tmphist = Own [], histpos = None, has_focus = False, emitted = []\<rparr>"]
  by (simp add: recorded_abc_padded_start tmphist_val_def)


text \<open>
  With an empty log, \<^verbatim>\<open>_histbrowse_start\<close> does not leave the cursor inactive: it
  binds \<^verbatim>\<open>_tmphist\<close> to the log and sets \<^verbatim>\<open>_histpos\<close> to \<open>-1\<close>.
\<close>

theorem start_browsing_empty_log_counterexample:
  "history init = [] \<and> histpos init = None \<and>
   histpos (histbrowse_start init) = Some (- 1) \<and>
   histbrowse_start init \<noteq> init"
  by (simp add: init_start) (simp add: init_def)

text \<open>
  C4, as the code has it: whenever the list \<^verbatim>\<open>_histbrowse_start\<close> builds is empty
  (as it is for an empty log), the call changes the cursor and nothing else: it
  binds \<^verbatim>\<open>_tmphist\<close> to that empty list and sets \<^verbatim>\<open>_histpos\<close> to \<open>-1\<close>, so the
  cursor is not \<^verbatim>\<open>None\<close>; the log, the line and the signals stay as they were,
  and in the state it leaves the Up and Down handlers change nothing.
\<close>

theorem start_browsing_empty_filtered:
  "tmphist_val (histbrowse_start s) = [] \<Longrightarrow>
   histbrowse_start s =
     s\<lparr>tmphist := (if strip (line_text s) \<noteq> [] then Own [] else Shared),
       histpos := Some (- 1)\<rparr> \<and>
   key_up_handler (histbrowse_start s) = Inr (histbrowse_start s) \<and>
   key_down_handler (histbrowse_start s) = Inr (histbrowse_start s)"
proof -
  assume empty: "tmphist_val (histbrowse_start s) = []"
  then have p: "histpos (histbrowse_start s) = Some (- 1)"
    by (simp add: histpos_histbrowse_start)
  have "key_up_handler (histbrowse_start s) = Inr (histbrowse_start s)"
    by (rule key_up_at_edge [OF p]) simp
  moreover have "key_down_handler (histbrowse_start s) = Inr (histbrowse_start s)"
    by (rule key_down_at_edge [OF p]) (simp add: empty)
  ultimately show ?thesis
    using histbrowse_start_empty [OF empty] by simp
qed

theorem start_browsing_empty_filtered_witness:
  "tmphist_val (histbrowse_start init) = [] \<and>
   histbrowse_start init = init\<lparr>tmphist := Shared, histpos := Some (- 1)\<rparr> \<and>
   key_up_handler (histbrowse_start init) = Inr (histbrowse_start init) \<and>
   key_down_handler (histbrowse_start init) = Inr (histbrowse_start init)"
proof -
  have e: "tmphist_val (histbrowse_start init) = []"
    by (simp add: init_start tmphist_val_def)
  have "strip (line_text init) = []"
    by (simp add: init_def strip_def)
  then have "histbrowse_start init = init\<lparr>tmphist := Shared, histpos := Some (- 1)\<rparr>"
    using start_browsing_empty_filtered [OF e] by simp
  with e start_browsing_empty_filtered [OF e] show ?thesis
    by blast
qed


subsection \<open>Stepping while no session is open\<close>

text \<open>
  With a log of one entry and no session open, the Down handler returns at once:
  the cursor stays \<^verbatim>\<open>None\<close> and \<^verbatim>\<open>_tmphist\<close> stays the empty list, where
  \<^verbatim>\<open>_histbrowse_start\<close> would have built the one-entry list with position 0.
\<close>

theorem step_forward_inactive_counterexample:
  "histpos (run [TextEdited '':a'', ReturnPressed] init) = None \<and>
   key_down_handler (run [TextEdited '':a'', ReturnPressed] init) =
     Inr (run [TextEdited '':a'', ReturnPressed] init) \<and>
   tmphist_val (state_of (key_down_handler (run [TextEdited '':a'', ReturnPressed] init))) = [] \<and>
   histpos (state_of (key_down_handler (run [TextEdited '':a'', ReturnPressed] init))) = None \<and>
   tmphist_val (histbrowse_start (run [TextEdited '':a'', ReturnPressed] init)) = ['':a''] \<and>
   histpos (histbrowse_start (run [TextEdited '':a'', ReturnPressed] init)) = Some 0"
proof -
  let ?s = "run [TextEdited '':a'', ReturnPressed] init"
  have i: "histpos ?s = None" by (simp add: recorded_a)
  have d: "key_down_handler ?s = Inr ?s" by (rule key_down_inactive [OF i])
  have t: "tmphist_val ?s = []" by (simp add: recorded_a tmphist_val_def)
  have "state_of (key_down_handler ?s) = ?s" by (simp only: d state_of_def sum.case)
  with i d t show ?thesis
    by (simp add: recorded_a_start tmphist_val_def)
qed

text \<open>
  C3, as the code has it: with no session open, the Up handler first calls
  \<^verbatim>\<open>_histbrowse_start\<close>, seeded with the text of the line, and shows the last
  entry of the list it built (nothing for an empty list); the Down handler returns
  without calling it and leaves the state as it is. So \<^verbatim>\<open>_histbrowse_stop\<close>
  followed by Up builds \<^verbatim>\<open>_tmphist\<close> anew from the text of the line, whatever list
  it held before.
\<close>

theorem step_back_inactive_starts_browsing:
  "histpos s = None \<Longrightarrow>
   key_up_handler s =
     (if tmphist_val (histbrowse_start s) = [] then Inr (histbrowse_start s)
      else Inr (set_cmd (last (tmphist_val (histbrowse_start s))) (histbrowse_start s))) \<and>
   tmphist_val (state_of (key_up_handler s)) =
     (if strip (line_text s) \<noteq> []
      then filter (\<lambda>e. \<exists>r. e = strip (line_text s) @ r) (history s)
      else history s) \<and>
   key_down_handler s = Inr s \<and>
   tmphist_val (state_of (key_up_handler (histbrowse_stop t))) =
     (if strip (line_text t) \<noteq> []
      then filter (\<lambda>e. \<exists>r. e = strip (line_text t) @ r) (history t)
      else history t)"
proof -
  have up: "tmphist_val (state_of (key_up_handler u)) =
     (if strip (line_text u) \<noteq> []
      then filter (\<lambda>e. \<exists>r. e = strip (line_text u) @ r) (history u)
      else history u)" if "histpos u = None" for u
  proof -
    have "tmphist_val (state_of (key_up_handler u)) = tmphist_val (histbrowse_start u)"
      using that by (simp add: key_up_inactive state_of_def tmphist_val_set_cmd)
    then show ?thesis
      by (simp only: tmphist_val_histbrowse_start startswith_filter_iff)
  qed
  assume inactive: "histpos s = None"
  have "histpos (histbrowse_stop t) = None"
    by (simp add: histbrowse_stop_def)
  from up [OF this] have "tmphist_val (state_of (key_up_handler (histbrowse_stop t))) =
     (if strip (line_text t) \<noteq> []
      then filter (\<lambda>e. \<exists>r. e = strip (line_text t) @ r) (history t)
      else history t)"
    by (simp add: histbrowse_stop_def)
  with inactive up [OF inactive] show ?thesis
    by (simp only: key_up_inactive key_down_inactive simp_thms)
qed

theorem step_back_inactive_starts_browsing_witness:
  "key_up_handler \<lparr>line_text = ''b'', history = [''a'', ''b'', ''c''], tmphist = Own [],
       histpos = None, has_focus = False, emitted = []\<rparr> =
     Inr \<lparr>line_text = ''b'', history = [''a'', ''b'', ''c''], tmphist = Own [''b''],
       histpos = Some 0, has_focus = True, emitted = []\<rparr> \<and>
   key_down_handler \<lparr>line_text = ''b'', history = [''a'', ''b'', ''c''], tmphist = Own [],
       histpos = None, has_focus = False, emitted = []\<rparr> =
     Inr \<lparr>line_text = ''b'', history = [''a'', ''b'', ''c''], tmphist = Own [],
       histpos = None, has_focus = False, emitted = []\<rparr> \<and>
   tmphist_val (state_of (key_up_handler (histbrowse_stop
     \<lparr>line_text = ''c'', history = [''a'', ''b'', ''c''], tmphist = Own [''b''],
       histpos = Some 0, has_focus = True, emitted = []\<rparr>))) = [''c'']"
  using step_back_inactive_starts_browsing
    [of "\<lparr>line_text = ''b'', history = [''a'', ''b'', ''c''], tmphist = Own [],
       histpos = None, has_focus = False, emitted = []\<rparr>"
      "\<lparr>line_text = ''c'', history = [''a'', ''b'', ''c''], tmphist = Own [''b''],
       histpos = Some 0, has_focus = True, emitted = []\<rparr>"]
    recorded_abc_b_start
  by (simp add: recorded_abc_b strip_def isspace_def set_cmd_def tmphist_val_def)


subsection \<open>Stepping while a session is open\<close>

text \<open>
  From the initial state, one press of Up opens a session on the empty log and
  leaves the position at \<open>-1\<close>, below 0.
\<close>

theorem step_back_below_zero_counterexample:
  "histpos (run [] init) = None \<and>
   histpos (state_of (key_up_handler (run [] init))) = Some (- 1) \<and>
   histpos (run [KeyUp] init) = Some (- 1)"
proof -
  have "state_of (key_up_handler init) = run [KeyUp] init"
    by (simp add: run_def)
  then show ?thesis
    by (simp add: run_Nil init_key_up init_start) (simp add: init_def)
qed

text \<open>
  C5, as the code has it: in every state the command line can reach with a session
  open, whatever the events before (any number of Up presses among them), the
  position is at least \<open>-1\<close>, and it is \<open>-1\<close> only when \<^verbatim>\<open>_tmphist\<close> is empty. When
  the position is 0 or \<open>-1\<close> the Up handler changes nothing: it neither wraps around
  nor closes the session. Otherwise it lowers the position by one and puts the
  entry of \<^verbatim>\<open>_tmphist\<close> at the new position into the line.
\<close>

theorem step_back_clamped:
  "histpos (run evs init) = Some p \<Longrightarrow>
   - 1 \<le> p \<and>
   (0 \<le> p \<or> tmphist_val (run evs init) = []) \<and>
   (if p \<le> 0 then key_up_handler (run evs init) = Inr (run evs init)
    else key_up_handler (run evs init) =
      Inr ((run evs init)\<lparr>histpos := Some (p - 1),
             line_text := tmphist_val (run evs init) ! nat (p - 1), has_focus := True\<rparr>))"
proof -
  assume p: "histpos (run evs init) = Some p"
  note ok = cursor_okD [OF cursor_ok_reachable p]
  show ?thesis
  proof (cases "p \<le> 0")
    case True
    with ok key_up_at_edge [OF p] show ?thesis by simp
  next
    case False
    with ok have "0 < p" "p < int (length (tmphist_val (run evs init)))" by auto
    from key_up_inside [OF p this] ok False show ?thesis by simp
  qed
qed

theorem step_back_clamped_witness:
  "key_up_handler (run [TextEdited ''a'', ReturnPressed, TextEdited ''b'', ReturnPressed,
        TextEdited ''c'', ReturnPressed, KeyUp, KeyUp] init) =
     Inr \<lparr>line_text = ''a'', history = [''a'', ''b'', ''c''], tmphist = Shared,
          histpos = Some 0, has_focus = True, emitted = []\<rparr> \<and>
   histpos (run [KeyUp] init) = Some (- 1) \<and>
   tmphist_val (run [KeyUp] init) = [] \<and>
   key_up_handler (run [KeyUp] init) = Inr (run [KeyUp] init)"
proof -
  let ?evs = "[TextEdited ''a'', ReturnPressed, TextEdited ''b'', ReturnPressed,
        TextEdited ''c'', ReturnPressed, KeyUp, KeyUp]"
  have p1: "histpos (run ?evs init) = Some 1"
    by (simp add: browsing_abc_up_up)
  have "key_up_handler (run ?evs init) =
     Inr \<lparr>line_text = ''a'', history = [''a'', ''b'', ''c''], tmphist = Shared,
          histpos = Some 0, has_focus = True, emitted = []\<rparr>"
    using step_back_clamped [OF p1] by (simp add: browsing_abc_up_up tmphist_val_def)
  moreover have p2: "histpos (run [KeyUp] init) = Some (- 1)"
    by (simp add: init_key_up init_start)
  moreover have "tmphist_val (run [KeyUp] init) = []"
    using step_back_clamped [OF p2] by simp
  moreover have "key_up_handler (run [KeyUp] init) = Inr (run [KeyUp] init)"
    using step_back_clamped [OF p2] by simp
  ultimately show ?thesis by blast
qed

text \<open>
  C6: in every state the command line can reach with a session open, whatever the
  events before (any number of Down presses among them), the position is at most
  \<^verbatim>\<open>len(_tmphist) - 1\<close>. When it is that last index the Down handler changes
  nothing; otherwise it raises the position by one and puts the entry of
  \<^verbatim>\<open>_tmphist\<close> at the new position into the line.
\<close>

theorem step_forward_clamped:
  "histpos (run evs init) = Some p \<Longrightarrow>
   p \<le> int (length (tmphist_val (run evs init))) - 1 \<and>
   (if p = int (length (tmphist_val (run evs init))) - 1
    then key_down_handler (run evs init) = Inr (run evs init)
    else key_down_handler (run evs init) =
      Inr ((run evs init)\<lparr>histpos := Some (p + 1),
             line_text := tmphist_val (run evs init) ! nat (p + 1), has_focus := True\<rparr>))"
proof -
  assume p: "histpos (run evs init) = Some p"
  note ok = cursor_okD [OF cursor_ok_reachable p]
  show ?thesis
  proof (cases "p = int (length (tmphist_val (run evs init))) - 1")
    case True
    with ok key_down_at_edge [OF p] show ?thesis by simp
  next
    case False
    with ok have "- 1 \<le> p" "p < int (length (tmphist_val (run evs init))) - 1" by auto
    from key_down_inside [OF p this] ok False show ?thesis by simp
  qed
qed

theorem step_forward_clamped_witness:
  "key_down_handler (run [TextEdited ''a'', ReturnPressed, TextEdited ''b'', ReturnPressed,
        TextEdited ''c'', ReturnPressed, KeyUp, KeyUp] init) =
     Inr \<lparr>line_text = ''c'', history = [''a'', ''b'', ''c''], tmphist = Shared,
          histpos = Some 2, has_focus = True, emitted = []\<rparr> \<and>
   histpos (run [TextEdited ''a'', ReturnPressed, TextEdited ''b'', ReturnPressed,
        TextEdited ''c'', ReturnPressed, KeyUp] init) = Some 2 \<and>
   key_down_handler (run [TextEdited ''a'', ReturnPressed, TextEdited ''b'', ReturnPressed,
        TextEdited ''c'', ReturnPressed, KeyUp] init) =
     Inr (run [TextEdited ''a'', ReturnPressed, TextEdited ''b'', ReturnPressed,
        TextEdited ''c'', ReturnPressed, KeyUp] init)"
proof -
  let ?evs = "[TextEdited ''a'', ReturnPressed, TextEdited ''b'', ReturnPressed,
        TextEdited ''c'', ReturnPressed, KeyUp, KeyUp]"
  let ?evs' = "[TextEdited ''a'', ReturnPressed, TextEdited ''b'', ReturnPressed,
        TextEdited ''c'', ReturnPressed, KeyUp]"
  have p1: "histpos (run ?evs init) = Some 1"
    by (simp add: browsing_abc_up_up)
  have "key_down_handler (run ?evs init) =
     Inr \<lparr>line_text = ''c'', history = [''a'', ''b'', ''c''], tmphist = Shared,
          histpos = Some 2, has_focus = True, emitted = []\<rparr>"
    using step_forward_clamped [OF p1] by (simp add: browsing_abc_up_up tmphist_val_def)
  moreover have p2: "histpos (run ?evs' init) = Some 2"
    by (simp add: browsing_abc_up)
  moreover have "tmphist_val (run ?evs' init) = [''a'', ''b'', ''c'']"
    by (simp add: browsing_abc_up tmphist_val_def)
  then have "key_down_handler (run ?evs' init) = Inr (run ?evs' init)"
    using step_forward_clamped [OF p2] by simp
  ultimately show ?thesis by blast
qed


subsection \<open>No browsing operation raises\<close>

text \<open>
  With the log \<open>[:a]\<close> and the line \<open>:zzz\<close> no entry matches, and
  \<^verbatim>\<open>_histbrowse_start\<close> is not a no-op: it leaves the position \<open>-1\<close> where the
  cursor was \<^verbatim>\<open>None\<close>.
\<close>

theorem start_browsing_not_noop_counterexample:
  "history (run [TextEdited '':a'', ReturnPressed, TextEdited '':zzz''] init) = ['':a''] \<and>
   histpos (run [TextEdited '':a'', ReturnPressed, TextEdited '':zzz''] init) = None \<and>
   tmphist_val (histbrowse_start
     (run [TextEdited '':a'', ReturnPressed, TextEdited '':zzz''] init)) = [] \<and>
   histpos (histbrowse_start
     (run [TextEdited '':a'', ReturnPressed, TextEdited '':zzz''] init)) = Some (- 1) \<and>
   histbrowse_start (run [TextEdited '':a'', ReturnPressed, TextEdited '':zzz''] init) \<noteq>
     run [TextEdited '':a'', ReturnPressed, TextEdited '':zzz''] init"
  by (simp add: recorded_a_zzz_start tmphist_val_def) (simp add: recorded_a_zzz)

text \<open>
  C7, as the code has it: in every state the command line can reach, the Up and
  Down handlers return without raising, so every list index they compute is in
  range; \<^verbatim>\<open>_histbrowse_start\<close> and \<^verbatim>\<open>_histbrowse_stop\<close> index no list and
  cannot raise. At the boundaries: Up at position 0 or below and Down at the last
  index or with no session open leave the state unchanged; \<^verbatim>\<open>_histbrowse_start\<close>
  with no matching entry (an empty log among the cases) changes only the cursor, to
  the empty list and position \<open>-1\<close>, and Up with no session open then shows nothing;
  \<^verbatim>\<open>_histbrowse_stop\<close> changes only the position, to \<^verbatim>\<open>None\<close>.
\<close>

theorem browsing_never_raises:
  "(\<exists>s'. key_up_handler (run evs init) = Inr s') \<and>
   (\<exists>s'. key_down_handler (run evs init) = Inr s') \<and>
   (histpos (run evs init) = Some p \<and> p \<le> 0 \<longrightarrow>
      key_up_handler (run evs init) = Inr (run evs init)) \<and>
   (histpos (run evs init) = None \<or>
    (\<exists>p. histpos (run evs init) = Some p \<and> int (length (tmphist_val (run evs init))) - 1 \<le> p)
      \<longrightarrow> key_down_handler (run evs init) = Inr (run evs init)) \<and>
   (tmphist_val (histbrowse_start (run evs init)) = [] \<longrightarrow>
      histbrowse_start (run evs init) =
        (run evs init)\<lparr>tmphist := (if strip (line_text (run evs init)) \<noteq> [] then Own []
                                     else Shared),
                        histpos := Some (- 1)\<rparr> \<and>
      (histpos (run evs init) = None \<longrightarrow>
         key_up_handler (run evs init) = Inr (histbrowse_start (run evs init)))) \<and>
   histbrowse_stop (run evs init) = (run evs init)\<lparr>histpos := None\<rparr>"
proof -
  let ?s = "run evs init"
  have ok: "cursor_ok ?s" by (rule cursor_ok_reachable)
  have up: "\<exists>s'. key_up_handler ?s = Inr s'" by (rule key_up_returns [OF ok])
  have down: "\<exists>s'. key_down_handler ?s = Inr s'" by (rule key_down_returns [OF ok])
  have up_edge: "histpos ?s = Some p \<and> p \<le> 0 \<longrightarrow> key_up_handler ?s = Inr ?s"
    by (simp add: key_up_at_edge)
  have down_edge: "histpos ?s = None \<or>
    (\<exists>p. histpos ?s = Some p \<and> int (length (tmphist_val ?s)) - 1 \<le> p)
      \<longrightarrow> key_down_handler ?s = Inr ?s"
    by (auto simp: key_down_inactive key_down_at_edge)
  have start: "tmphist_val (histbrowse_start ?s) = [] \<longrightarrow>
      histbrowse_start ?s =
        ?s\<lparr>tmphist := (if strip (line_text ?s) \<noteq> [] then Own [] else Shared),
           histpos := Some (- 1)\<rparr> \<and>
      (histpos ?s = None \<longrightarrow> key_up_handler ?s = Inr (histbrowse_start ?s))"
    using histbrowse_start_empty [of ?s] key_up_inactive [of ?s] by simp
  have stop: "histbrowse_stop ?s = ?s\<lparr>histpos := None\<rparr>"
    by (rule histbrowse_stop_def)
  from up down up_edge down_edge start stop show ?thesis
    by blast
qed

theorem browsing_never_raises_witness:
  "key_up_handler (run [TextEdited '':a'', ReturnPressed, TextEdited '':zzz''] init) =
     Inr \<lparr>line_text = '':zzz'', history = ['':a''], tmphist = Own [], histpos = Some (- 1),
          has_focus = False, emitted = [got_cmd ''a'']\<rparr> \<and>
   key_down_handler (run [TextEdited '':a'', ReturnPressed, TextEdited '':zzz''] init) =
     Inr (run [TextEdited '':a'', ReturnPressed, TextEdited '':zzz''] init) \<and>
   key_up_handler (run [KeyUp] init) = Inr (run [KeyUp] init) \<and>
   key_down_handler (run [KeyUp] init) = Inr (run [KeyUp] init)"
proof -
  let ?evs = "[TextEdited '':a'', ReturnPressed, TextEdited '':zzz'']"
  have i: "histpos (run ?evs init) = None"
    by (simp add: recorded_a_zzz)
  have e: "tmphist_val (histbrowse_start (run ?evs init)) = []"
    by (simp add: recorded_a_zzz_start tmphist_val_def)
  have "key_up_handler (run ?evs init) = Inr (histbrowse_start (run ?evs init))"
    using browsing_never_raises [of ?evs] i e by blast
  then have "key_up_handler (run ?evs init) =
     Inr \<lparr>line_text = '':zzz'', history = ['':a''], tmphist = Own [], histpos = Some (- 1),
          has_focus = False, emitted = [got_cmd ''a'']\<rparr>"
    by (simp only: recorded_a_zzz_start)
  moreover have "key_down_handler (run ?evs init) = Inr (run ?evs init)"
    using browsing_never_raises [of ?evs] i by blast
  moreover have p: "histpos (run [KeyUp] init) = Some (- 1)"
    by (simp add: init_key_up init_start)
  have "tmphist_val (run [KeyUp] init) = []"
    by (simp add: init_key_up init_start tmphist_val_def)
  with p have "key_up_handler (run [KeyUp] init) = Inr (run [KeyUp] init)"
    and "key_down_handler (run [KeyUp] init) = Inr (run [KeyUp] init)"
    using browsing_never_raises [of "[KeyUp]" "- 1"] by simp_all
  ultimately show ?thesis by blast
qed


subsection \<open>The validator\<close>

text \<open>
  C8: the validator answers \<^verbatim>\<open>Acceptable\<close> exactly when the string starts with one
  of the start characters and \<^verbatim>\<open>Invalid\<close> exactly when it starts with none of
  them (so never \<^verbatim>\<open>Intermediate\<close>), and it hands the string and the cursor
  position back unchanged in both cases.
\<close>

theorem validate_binary:
  "(fst (validate startchars string pos) = Acceptable \<longleftrightarrow>
      (\<exists>c\<in>set startchars. \<exists>r. string = c @ r)) \<and>
   (fst (validate startchars string pos) = Invalid \<longleftrightarrow>
      \<not> (\<exists>c\<in>set startchars. \<exists>r. string = c @ r)) \<and>
   snd (validate startchars string pos) = (string, pos)"
  by (simp add: validate_def list_ex_iff startswith_iff)

theorem validate_binary_witness:
  "validate ['':'', ''/'', ''?''] '':open'' 5 = (Acceptable, '':open'', 5) \<and>
   validate ['':'', ''/'', ''?''] ''open'' 0 = (Invalid, ''open'', 0) \<and>
   validate ['':'', ''/'', ''?''] [] 0 = (Invalid, [], 0)"
  using validate_binary [of "['':'', ''/'', ''?'']" "'':open''" 5]
    validate_binary [of "['':'', ''/'', ''?'']" "''open''" 0]
    validate_binary [of "['':'', ''/'', ''?'']" "[]" 0]
  by (simp add: validate_def startswith_def)

end
